theory Spec2Isabelle
  imports Complex_Main "HOL-Library.Char_ord" "HOL-Library.List_Lexorder" "HOL-Library.Multiset"
begin

section \<open>JavaScript values and strings\<close>

text \<open>
  The script \<^verbatim>\<open>dev/scripts/update-stars.js\<close> handles values produced by
  \<^verbatim>\<open>JSON.parse\<close> and the value \<^verbatim>\<open>undefined\<close>. A finite Number is
  represented by the decimal fraction that \<^verbatim>\<open>Number::toString\<close> prints for it
  (the shortest decimal that rounds to the Number, which determines it; the two
  zeros, which \<^verbatim>\<open>===\<close> and \<^verbatim>\<open>JSON.stringify\<close> do not tell apart, are
  one value): \<open>JNum 10\<close>, \<open>JNum 0.5\<close>, \<open>JNum 1e21\<close> as
  \<open>JNum (10 ^ 21)\<close>. A rational that is no decimal fraction represents no
  Number. \<open>JInfinity negative\<close> is an infinite Number, which \<^verbatim>\<open>JSON.parse\<close>
  returns for a literal beyond the largest finite one; it never returns
  \<^verbatim>\<open>NaN\<close>. An object is its list of own properties in enumeration order.
  A string is the list of its code units, of which the model has those below 256;
  strings are ordered as JavaScript's \<^verbatim>\<open><\<close> orders them, code unit by code
  unit, a proper prefix first.
\<close>

datatype jsval =
    JUndefined
  | JNull
  | JBool bool
  | JNum rat
  | JInfinity bool
  | JStr string
  | JArr "jsval list"
  | JObj "(string \<times> jsval) list"

text \<open>
  Reading a property \<^verbatim>\<open>v.k\<close>: a \<^verbatim>\<open>TypeError\<close> (here \<open>None\<close>) on
  \<^verbatim>\<open>null\<close> and \<^verbatim>\<open>undefined\<close>, the property's value on an object that
  has it, \<^verbatim>\<open>undefined\<close> otherwise. The script only reads the keys
  \<^verbatim>\<open>github_repo\<close> and \<^verbatim>\<open>stars\<close>, which no boolean, number, string or
  array has.
\<close>

fun get_prop :: "jsval \<Rightarrow> string \<Rightarrow> jsval option" where
  "get_prop JUndefined k = None"
| "get_prop JNull k = None"
| "get_prop (JObj fs) k = (case map_of fs k of None \<Rightarrow> Some JUndefined | Some v \<Rightarrow> Some v)"
| "get_prop v k = Some JUndefined"

text \<open>
  Assigning \<^verbatim>\<open>obj.k = v\<close> for a key that is not an array index: an existing
  property keeps its place, a new one is added last.
\<close>

fun set_field :: "string \<Rightarrow> jsval \<Rightarrow> (string \<times> jsval) list \<Rightarrow> (string \<times> jsval) list" where
  "set_field k v [] = [(k, v)]"
| "set_field k v ((k', v') # fs) =
     (if k' = k then (k, v) # fs else (k', v') # set_field k v fs)"

fun set_prop :: "jsval \<Rightarrow> string \<Rightarrow> jsval \<Rightarrow> jsval" where
  "set_prop (JObj fs) k v = JObj (set_field k v fs)"
| "set_prop d k v = d"

text \<open>Decimal digits of a natural number, as a template literal prints an index.\<close>

fun dec :: "nat \<Rightarrow> string" where
  "dec n = (if n < 10 then [''0123456789'' ! n]
            else dec (n div 10) @ [''0123456789'' ! (n mod 10)])"

declare dec.simps [simp del]

text \<open>
  \<^verbatim>\<open>Number::toString(x)\<close> for a finite \<open>x\<close>, in radix 10. \<open>digits_of p q e\<close>
  gives the integers \<open>s\<close> and \<open>e'\<close> with \<open>p / q * 10 ^ e = s * 10 ^ e'\<close>
  and \<open>s\<close> not divisible by 10; the decimal digits of \<open>s\<close> are the digits
  that step 5 of the algorithm chooses, their number is its \<open>k\<close>, and
  \<open>n = k + e'\<close>. The four formats are those of its steps 6 to 10.
\<close>

function digits_of :: "nat \<Rightarrow> nat \<Rightarrow> int \<Rightarrow> nat \<times> int" where
  "digits_of p q e =
     (if 1 < q \<and> q mod 2 = 0 then digits_of (5 * p) (q div 2) (e - 1)
      else if 1 < q \<and> q mod 5 = 0 then digits_of (2 * p) (q div 5) (e - 1)
      else if q = 1 \<and> 0 < p \<and> p mod 10 = 0 then digits_of (p div 10) q (e + 1)
      else (p, e))"
  by pat_completeness auto
termination
  by (relation "measures [\<lambda>(p, q, e). q, \<lambda>(p, q, e). p]") auto

declare digits_of.simps [simp del]

definition positive_text :: "nat \<Rightarrow> int \<Rightarrow> string" where
  "positive_text s e =
     (let ds = dec s; k = int (length ds); n = k + e in
      if k \<le> n \<and> n \<le> 21 then ds @ replicate (nat (n - k)) CHR ''0''
      else if 0 < n \<and> n \<le> 21 then take (nat n) ds @ ''.'' @ drop (nat n) ds
      else if - 6 < n \<and> n \<le> 0 then ''0.'' @ replicate (nat (- n)) CHR ''0'' @ ds
      else (if k = 1 then ds else take 1 ds @ ''.'' @ drop 1 ds)
           @ ''e'' @ (if n - 1 < 0 then ''-'' else ''+'') @ dec (nat \<bar>n - 1\<bar>))"

definition Number_toString :: "rat \<Rightarrow> string" where
  "Number_toString x =
     (case quotient_of \<bar>x\<bar> of
        (p, q) \<Rightarrow>
          (case digits_of (nat p) (nat q) 0 of
             (s, e) \<Rightarrow>
               if x = 0 then ''0''
               else (if x < 0 then ''-'' else []) @ positive_text s e))"

text \<open>\<^verbatim>\<open>s.startsWith(p)\<close>, used to find the first occurrence of a pattern.\<close>

fun starts_with :: "string \<Rightarrow> string \<Rightarrow> bool" where
  "starts_with s [] = True"
| "starts_with [] (p # ps) = False"
| "starts_with (c # cs) (p # ps) = (c = p \<and> starts_with cs ps)"

text \<open>
  \<^verbatim>\<open>s.replace(pat, rep)\<close> with a string pattern: the first occurrence of
  \<open>pat\<close>, wherever it stands, is replaced; a string without one is unchanged.
\<close>

fun replace_first :: "string \<Rightarrow> string \<Rightarrow> string \<Rightarrow> string" where
  "replace_first pat rep [] = (if pat = [] then rep else [])"
| "replace_first pat rep (c # cs) =
     (if starts_with (c # cs) pat then rep @ drop (length pat) (c # cs)
      else c # replace_first pat rep cs)"

text \<open>\<^verbatim>\<open>s.split(c)\<close> for a one-character separator: never an empty list.\<close>

fun split_on :: "char \<Rightarrow> string \<Rightarrow> string list" where
  "split_on c [] = [[]]"
| "split_on c (x # xs) =
     (if x = c then [] # split_on c xs
      else (case split_on c xs of [] \<Rightarrow> [[x]] | p # ps \<Rightarrow> (x # p) # ps))"

section \<open>The batch query client: fetchStarCounts\<close>

datatype error =
    TypeError
  | FetchFailed
  | ApiError nat string
  | BodyError
  | WriteError string

text \<open>
  What the hosting service answers to one POST: the request is rejected (a network or
  transport failure), a status that is not a success with its text, a body that is
  not usable (\<^verbatim>\<open>response.json()\<close> rejects, or the body is \<^verbatim>\<open>null\<close>), or a
  body with a possibly truthy \<^verbatim>\<open>errors\<close> member and a \<^verbatim>\<open>data\<close> member.
  \<open>data\<close> maps a key to \<open>Some (Some n)\<close> when the entry has the number
  \<open>n\<close> as its \<^verbatim>\<open>stargazerCount\<close>, to \<open>Some None\<close> when the entry is
  \<^verbatim>\<open>null\<close> or has no count, and to \<open>None\<close> when there is no entry (or no
  \<^verbatim>\<open>data\<close> at all).
\<close>

datatype response =
    Rejected
  | Status nat string
  | Unusable
  | Body bool "string \<Rightarrow> rat option option"

record repository =
  slug :: string
  url :: jsval

definition HOST :: string where
  "HOST = ''https://github.com/''"

text \<open>\<^verbatim>\<open>repo.url.replace("https://github.com/", "").split("/")\<close>\<close>

definition url_parts :: "string \<Rightarrow> string list" where
  "url_parts u = split_on CHR ''/'' (replace_first HOST [] u)"

definition repo_key :: "nat \<Rightarrow> string" where
  "repo_key idx = ''repo'' @ dec idx"

text \<open>
  The callback of \<^verbatim>\<open>repositories.map\<close> (lines 27-32): \<open>Inl TypeError\<close> when
  \<^verbatim>\<open>repo.url\<close> has no \<^verbatim>\<open>replace\<close> method (it is not a string),
  \<open>Inr None\<close> for \<^verbatim>\<open>null\<close>, \<open>Inr (Some q)\<close> for the text of one lookup.
\<close>

definition query_of :: "nat \<Rightarrow> repository \<Rightarrow> error + string option" where
  "query_of idx repo =
     (case url repo of
        JStr u \<Rightarrow>
          (case url_parts u of
             [owner, name] \<Rightarrow>
               Inr (Some (repo_key idx @ '': repository(owner: '' @ [CHR 0x22] @ owner
                          @ [CHR 0x22] @ '', name: '' @ [CHR 0x22] @ name @ [CHR 0x22]
                          @ '') { stargazerCount }''))
           | _ \<Rightarrow> Inr None)
      | _ \<Rightarrow> Inl TypeError)"

text \<open>\<^verbatim>\<open>repositories.map((repo, idx) => ...)\<close>, stopped by the first exception.\<close>

fun map_queries :: "nat \<Rightarrow> repository list \<Rightarrow> error + string option list" where
  "map_queries idx [] = Inr []"
| "map_queries idx (r # rs) =
     (case query_of idx r of
        Inl e \<Rightarrow> Inl e
      | Inr q \<Rightarrow> (case map_queries (Suc idx) rs of
                   Inl e \<Rightarrow> Inl e
                 | Inr qs \<Rightarrow> Inr (q # qs)))"

text \<open>\<^verbatim>\<open>.filter(Boolean)\<close>: \<^verbatim>\<open>null\<close> and the empty string are dropped.\<close>

definition filter_Boolean :: "string option list \<Rightarrow> string list" where
  "filter_Boolean qs = [q. Some q \<leftarrow> qs, q \<noteq> []]"

text \<open>\<^verbatim>\<open>parts.join(sep)\<close>\<close>

fun array_join :: "string \<Rightarrow> string list \<Rightarrow> string" where
  "array_join sep [] = []"
| "array_join sep [q] = q"
| "array_join sep (q # qs) = q @ sep @ array_join sep qs"

definition query_text :: "string list \<Rightarrow> string" where
  "query_text queries =
     [CHR 0x0A] @ ''    query {'' @ [CHR 0x0A] @ ''      ''
     @ array_join ([CHR 0x0A] @ ''      '') queries
     @ [CHR 0x0A] @ ''    }'' @ [CHR 0x0A] @ ''  ''"

text \<open>
  The loop of lines 65-69: position \<open>i\<close> of the result is the count under the key
  \<^verbatim>\<open>repo<i>\<close>, and \<open>0\<close> when that entry or its count is missing.
\<close>

definition star_at :: "(string \<Rightarrow> rat option option) \<Rightarrow> nat \<Rightarrow> jsval" where
  "star_at data i =
     (case data (repo_key i) of
        Some (Some n) \<Rightarrow> JNum n
      | _ \<Rightarrow> JNum 0)"

definition extract_counts :: "(string \<Rightarrow> rat option option) \<Rightarrow> nat \<Rightarrow> jsval list" where
  "extract_counts data n = map (star_at data) [0..<n]"

datatype event =
    LogFatal string
  | LogStart nat
  | LogWarn string
  | LogFetching nat
  | Request string
  | LogGraphQLErrors
  | Write string string
  | LogUpdated string jsval
  | LogNoChange string jsval
  | LogBatchFailed error
  | Sleep
  | LogSummary nat

text \<open>
  The world the script runs in. \<open>listing\<close> is what \<^verbatim>\<open>readdirSync\<close> returns for
  the projects directory (\<open>None\<close>: it throws), \<open>is_dir\<close> what
  \<^verbatim>\<open>statSync(...).isDirectory()\<close> returns for an entry (\<open>None\<close>: it throws),
  \<open>files\<close> the readable files by path, \<open>read_only\<close> the paths on which
  \<^verbatim>\<open>writeFileSync\<close> throws, \<open>net\<close> the answer of the service to the
  \<open>n\<close>-th request of the run with a given query text, \<open>requests\<close> the number of
  requests sent so far, and \<open>trace\<close> the actions performed so far, oldest first.
\<close>

record world =
  token :: "string option"
  listing :: "string list option"
  is_dir :: "string \<Rightarrow> bool option"
  files :: "string \<Rightarrow> string option"
  read_only :: "string \<Rightarrow> bool"
  net :: "nat \<Rightarrow> string \<Rightarrow> response"
  requests :: nat
  trace :: "event list"

definition emit :: "event \<Rightarrow> world \<Rightarrow> world" where
  "emit e w = w\<lparr>trace := trace w @ [e]\<rparr>"

text \<open>
  \<^verbatim>\<open>fetchStarCounts\<close> (lines 23-72). The result is the array it resolves to, or
  the exception it rejects with; the world records the request and the log line.
\<close>

definition fetchStarCounts :: "repository list \<Rightarrow> world \<Rightarrow> (error + jsval list) \<times> world" where
  "fetchStarCounts repositories w =
     (case map_queries 0 repositories of
        Inl e \<Rightarrow> (Inl e, w)
      | Inr mapped \<Rightarrow>
          let queries = filter_Boolean mapped in
          if length queries = 0 then (Inr [], w)
          else
            let query = query_text queries;
                w1 = emit (Request query) (w\<lparr>requests := Suc (requests w)\<rparr>)
            in (case net w (requests w) query of
                  Rejected \<Rightarrow> (Inl FetchFailed, w1)
                | Status code txt \<Rightarrow> (Inl (ApiError code txt), w1)
                | Unusable \<Rightarrow> (Inl BodyError, w1)
                | Body errs data \<Rightarrow>
                    (Inr (extract_counts data (length repositories)),
                     if errs then emit LogGraphQLErrors w1 else w1)))"

section \<open>JSON.stringify\<close>

text \<open>
  \<^verbatim>\<open>JSON.stringify(value, null, space)\<close> as ECMAScript defines it, for the
  values above. \<open>quote\<close> is QuoteJSONString; \<open>ser gap ind v\<close> is
  SerializeJSONProperty with the current indentation \<open>ind\<close> (\<open>None\<close>:
  \<^verbatim>\<open>undefined\<close>, a property that is left out of an object and printed as
  \<^verbatim>\<open>null\<close> in an array). A Number that is not finite is printed as
  \<^verbatim>\<open>null\<close>.
\<close>

definition hex_digit :: "nat \<Rightarrow> char" where
  "hex_digit n = ''0123456789abcdef'' ! (n mod 16)"

definition quote_char :: "char \<Rightarrow> string" where
  "quote_char c =
     (if c = CHR 0x22 then [CHR 0x5C, CHR 0x22]
      else if c = CHR 0x5C then [CHR 0x5C, CHR 0x5C]
      else if c = CHR 0x08 then [CHR 0x5C, CHR ''b'']
      else if c = CHR 0x0C then [CHR 0x5C, CHR ''f'']
      else if c = CHR 0x0A then [CHR 0x5C, CHR ''n'']
      else if c = CHR 0x0D then [CHR 0x5C, CHR ''r'']
      else if c = CHR 0x09 then [CHR 0x5C, CHR ''t'']
      else if (of_char c :: nat) < 32
        then [CHR 0x5C, CHR ''u'', CHR ''0'', CHR ''0'',
              hex_digit (of_char c div 16), hex_digit (of_char c)]
      else [c])"

definition quote :: "string \<Rightarrow> string" where
  "quote s = [CHR 0x22] @ concat (map quote_char s) @ [CHR 0x22]"

definition wrap :: "string \<Rightarrow> string \<Rightarrow> string \<Rightarrow> string \<Rightarrow> string list \<Rightarrow> string" where
  "wrap opening closing gap stepback partial =
     (if partial = [] then opening @ closing
      else if gap = [] then opening @ array_join '','' partial @ closing
      else opening @ [CHR 0x0A] @ stepback @ gap
           @ array_join ('','' @ [CHR 0x0A] @ stepback @ gap) partial
           @ [CHR 0x0A] @ stepback @ closing)"

definition member_text :: "string \<Rightarrow> string \<Rightarrow> string \<Rightarrow> string" where
  "member_text gap k s = quote k @ '':'' @ (if gap = [] then [] else '' '') @ s"

fun ser :: "string \<Rightarrow> string \<Rightarrow> jsval \<Rightarrow> string option"
  and ser_elems :: "string \<Rightarrow> string \<Rightarrow> jsval list \<Rightarrow> string list"
  and ser_members :: "string \<Rightarrow> string \<Rightarrow> (string \<times> jsval) list \<Rightarrow> string list"
where
  "ser gap ind JUndefined = None"
| "ser gap ind JNull = Some ''null''"
| "ser gap ind (JBool b) = Some (if b then ''true'' else ''false'')"
| "ser gap ind (JNum x) = Some (Number_toString x)"
| "ser gap ind (JInfinity negative) = Some ''null''"
| "ser gap ind (JStr s) = Some (quote s)"
| "ser gap ind (JArr xs) = Some (wrap ''['' '']'' gap ind (ser_elems gap (ind @ gap) xs))"
| "ser gap ind (JObj fs) = Some (wrap ''{'' ''}'' gap ind (ser_members gap (ind @ gap) fs))"
| "ser_elems gap ind [] = []"
| "ser_elems gap ind (x # xs) =
     (case ser gap ind x of None \<Rightarrow> ''null'' | Some s \<Rightarrow> s) # ser_elems gap ind xs"
| "ser_members gap ind [] = []"
| "ser_members gap ind ((k, v) # fs) =
     (case ser gap ind v of
        None \<Rightarrow> ser_members gap ind fs
      | Some s \<Rightarrow> member_text gap k s # ser_members gap ind fs)"

definition JSON_stringify :: "jsval \<Rightarrow> nat \<Rightarrow> string option" where
  "JSON_stringify v space = ser (replicate (min 10 space) CHR '' '') [] v"

text \<open>
  \<^verbatim>\<open>JSON.stringify(data, null, 2) + "\n"\<close> (line 125); string concatenation
  prints \<^verbatim>\<open>undefined\<close> by its name.
\<close>

definition file_text :: "jsval \<Rightarrow> string" where
  "file_text d =
     (case JSON_stringify d 2 of None \<Rightarrow> ''undefined'' | Some s \<Rightarrow> s) @ [CHR 0x0A]"

section \<open>The orchestrator: main\<close>

record project =
  folder :: string
  path :: string
  data :: jsval

definition BATCH_SIZE :: nat where
  "BATCH_SIZE = 50"

text \<open>
  Lines 79-87: the entries of the projects directory that are directories, in the
  order \<^verbatim>\<open>readdirSync\<close> lists them; \<open>None\<close> when \<^verbatim>\<open>readdirSync\<close> or a
  \<^verbatim>\<open>statSync\<close> throws (the script then exits with status 1).
\<close>

definition read_folders :: "world \<Rightarrow> string list option" where
  "read_folders w =
     (case listing w of
        None \<Rightarrow> None
      | Some names \<Rightarrow>
          if list_ex (\<lambda>name. is_dir w name = None) names then None
          else Some (filter (\<lambda>name. is_dir w name = Some True) names))"

text \<open>\<^verbatim>\<open>join(projectsDir, folder, "project.json")\<close>, relative to the root.\<close>

definition json_path :: "string \<Rightarrow> string" where
  "json_path f = ''projects/'' @ f @ ''/project.json''"

text \<open>
  Lines 92-102, for the folders in the order given (the caller sorts them).
  \<open>parse\<close> is \<^verbatim>\<open>JSON.parse\<close> (\<open>None\<close>: it throws); a file that cannot be
  read or parsed is logged and skipped.
\<close>

fun load_projects :: "(string \<Rightarrow> jsval option) \<Rightarrow> string list \<Rightarrow> world \<Rightarrow> project list \<times> world" where
  "load_projects parse [] w = ([], w)"
| "load_projects parse (f # fs) w =
     (case (case files w (json_path f) of None \<Rightarrow> None | Some raw \<Rightarrow> parse raw) of
        None \<Rightarrow> load_projects parse fs (emit (LogWarn f) w)
      | Some d \<Rightarrow>
          (case load_projects parse fs w of
             (ps, w') \<Rightarrow> (\<lparr>folder = f, path = json_path f, data = d\<rparr> # ps, w')))"

text \<open>
  Line 113: \<^verbatim>\<open>batch.map(p => ({ slug: p.folder, url: p.data.github_repo }))\<close>;
  \<open>None\<close> is the \<^verbatim>\<open>TypeError\<close> of reading a property of \<^verbatim>\<open>null\<close>.
\<close>

fun repositories_of :: "project list \<Rightarrow> repository list option" where
  "repositories_of [] = Some []"
| "repositories_of (p # ps) =
     (case get_prop (data p) ''github_repo'' of
        None \<Rightarrow> None
      | Some u \<Rightarrow>
          (case repositories_of ps of
             None \<Rightarrow> None
           | Some rs \<Rightarrow> Some (\<lparr>slug = folder p, url = u\<rparr> # rs)))"

text \<open>\<^verbatim>\<open>starCounts[j]\<close>: \<^verbatim>\<open>undefined\<close> past the end of the array.\<close>

definition array_get :: "jsval list \<Rightarrow> nat \<Rightarrow> jsval" where
  "array_get xs j = (if j < length xs then xs ! j else JUndefined)"

text \<open>
  \<^verbatim>\<open>a === b\<close> between a stored value and a fetched one: an array or an object
  is only equal to itself, and the two never are the same reference.
\<close>

fun strict_eq :: "jsval \<Rightarrow> jsval \<Rightarrow> bool" where
  "strict_eq (JArr xs) b = False"
| "strict_eq (JObj fs) b = False"
| "strict_eq a b = (a = b)"

definition write_file :: "string \<Rightarrow> string \<Rightarrow> world \<Rightarrow> world" where
  "write_file p content w =
     w\<lparr>files := (files w)(p \<mapsto> content), trace := trace w @ [Write p content]\<rparr>"

text \<open>
  Lines 119-131, from position \<open>j\<close> of the batch on: the exception that ended the
  loop (if any), \<^verbatim>\<open>totalUpdated\<close> and the world. The record changed by
  \<^verbatim>\<open>data.stars = stars\<close> is not read again in the run.
\<close>

fun update_loop :: "nat \<Rightarrow> project list \<Rightarrow> jsval list \<Rightarrow> nat \<Rightarrow> world \<Rightarrow> error option \<times> nat \<times> world" where
  "update_loop j [] starCounts totalUpdated w = (None, totalUpdated, w)"
| "update_loop j (p # rest) starCounts totalUpdated w =
     (let stars = array_get starCounts j in
      case get_prop (data p) ''stars'' of
        None \<Rightarrow> (Some TypeError, totalUpdated, w)
      | Some stored \<Rightarrow>
          if \<not> strict_eq stored stars then
            if read_only w (path p) then (Some (WriteError (path p)), totalUpdated, w)
            else update_loop (Suc j) rest starCounts (Suc totalUpdated)
                   (emit (LogUpdated (folder p) stars)
                      (write_file (path p) (file_text (set_prop (data p) ''stars'' stars)) w))
          else update_loop (Suc j) rest starCounts totalUpdated
                 (emit (LogNoChange (folder p) stars) w))"

text \<open>\<^verbatim>\<open>projects.slice(a, b)\<close> for \<open>a \<le> b\<close>.\<close>

definition slice :: "nat \<Rightarrow> nat \<Rightarrow> 'a list \<Rightarrow> 'a list" where
  "slice a b xs = take (b - a) (drop a xs)"

text \<open>
  The body of the batch loop up to the end of the \<^verbatim>\<open>try\<close> statement (lines
  109-135), for the batch that starts at index \<open>i\<close>. \<open>Inl\<close> is the exception that
  line 113 throws outside the \<^verbatim>\<open>try\<close>; an exception inside it is logged and
  the batch ends.
\<close>

definition process_batch :: "nat \<Rightarrow> project list \<Rightarrow> nat \<Rightarrow> world \<Rightarrow> world + nat \<times> world" where
  "process_batch i batch totalUpdated w =
     (let w1 = emit (LogFetching (i div BATCH_SIZE + 1)) w in
      case repositories_of batch of
        None \<Rightarrow> Inl w1
      | Some repositories \<Rightarrow>
          (case fetchStarCounts repositories w1 of
             (Inl e, w2) \<Rightarrow> Inr (totalUpdated, emit (LogBatchFailed e) w2)
           | (Inr starCounts, w2) \<Rightarrow>
               (case update_loop 0 batch starCounts totalUpdated w2 of
                  (Some e, totalUpdated', w3) \<Rightarrow> Inr (totalUpdated', emit (LogBatchFailed e) w3)
                | (None, totalUpdated', w3) \<Rightarrow> Inr (totalUpdated', w3))))"

text \<open>The batch loop of lines 108-141, from index \<open>i\<close> on.\<close>

function main_loop :: "nat \<Rightarrow> project list \<Rightarrow> nat \<Rightarrow> world \<Rightarrow> world + nat \<times> world" where
  "main_loop i projects totalUpdated w =
     (if i < length projects then
        (case process_batch i (slice i (i + BATCH_SIZE) projects) totalUpdated w of
           Inl w' \<Rightarrow> Inl w'
         | Inr (totalUpdated', w') \<Rightarrow>
             main_loop (i + BATCH_SIZE) projects totalUpdated'
               (if i + BATCH_SIZE < length projects then emit Sleep w' else w'))
      else Inr (totalUpdated, w))"
  by pat_completeness auto
termination
  by (relation "measure (\<lambda>(i, projects, totalUpdated, w). length projects - i)")
     (auto simp: BATCH_SIZE_def)

declare main_loop.simps [simp del]

text \<open>
  \<^verbatim>\<open>main\<close> (lines 76-144) with the handler of lines 146-149: the exit status
  and the world at exit.
\<close>

definition main :: "(string \<Rightarrow> jsval option) \<Rightarrow> world \<Rightarrow> nat \<times> world" where
  "main parse w =
     (case read_folders w of
        None \<Rightarrow> (1, emit (LogFatal ''Could not read projects/ directory'') w)
      | Some folders \<Rightarrow>
          (case load_projects parse (sort folders) (emit (LogStart (length folders)) w) of
             (projects, w2) \<Rightarrow>
               (case main_loop 0 projects 0 w2 of
                  Inl w3 \<Rightarrow> (1, w3)
                | Inr (totalUpdated, w3) \<Rightarrow> (0, emit (LogSummary totalUpdated) w3))))"

text \<open>
  The script as a whole: lines 14-19 end the process before \<^verbatim>\<open>main\<close> is
  called when \<^verbatim>\<open>GITHUB_TOKEN\<close> is unset or empty.
\<close>

definition script :: "(string \<Rightarrow> jsval option) \<Rightarrow> world \<Rightarrow> nat \<times> world" where
  "script parse w =
     (if token w = None \<or> token w = Some []
      then (1, emit (LogFatal ''GITHUB_TOKEN environment variable is required'') w)
      else main parse w)"

section \<open>Observations used to state the properties\<close>

text \<open>
  The values of \<^verbatim>\<open>batch\<close> in the iterations of the loop of lines 108-109,
  from index \<open>i\<close> on: \<^verbatim>\<open>projects.slice(i, i + BATCH_SIZE)\<close> for
  \<open>i\<close>, \<open>i + BATCH_SIZE\<close>, ... below \<^verbatim>\<open>projects.length\<close>.
\<close>

function batches_from :: "nat \<Rightarrow> 'a list \<Rightarrow> 'a list list" where
  "batches_from i projects =
     (if i < length projects
      then slice i (i + BATCH_SIZE) projects # batches_from (i + BATCH_SIZE) projects
      else [])"
  by pat_completeness auto
termination
  by (relation "measure (\<lambda>(i, projects). length projects - i)")
     (auto simp: BATCH_SIZE_def)

declare batches_from.simps [simp del]

text \<open>
  The specification's reading of the batch loop: the batches are handed, one after
  the other and in order, to the body of the loop (with the index of their first
  descriptor), with a pause after every batch but the last; an exception that
  escapes the body ends the run.
\<close>

fun in_batches :: "nat \<Rightarrow> project list list \<Rightarrow> nat \<Rightarrow> world \<Rightarrow> world + nat \<times> world" where
  "in_batches i [] totalUpdated w = Inr (totalUpdated, w)"
| "in_batches i (batch # rest) totalUpdated w =
     (case process_batch i batch totalUpdated w of
        Inl w' \<Rightarrow> Inl w'
      | Inr (totalUpdated', w') \<Rightarrow>
          in_batches (i + BATCH_SIZE) rest totalUpdated'
            (if rest = [] then w' else emit Sleep w'))"

text \<open>
  The folders in the order in which the loop of line 93 visits them:
  \<^verbatim>\<open>folders.sort()\<close> with the default comparison, which orders strings by
  their code units.
\<close>

definition scan_folders :: "world \<Rightarrow> string list option" where
  "scan_folders w = map_option sort (read_folders w)"

text \<open>The files written and the batch numbers announced in a trace, in order.\<close>

fun written :: "event list \<Rightarrow> (string \<times> string) list" where
  "written [] = []"
| "written (Write p c # es) = (p, c) # written es"
| "written (e # es) = written es"

fun announced :: "event list \<Rightarrow> nat list" where
  "announced [] = []"
| "announced (LogFetching k # es) = k # announced es"
| "announced (e # es) = announced es"






text \<open>
  What the log says about the descriptors that the update loop has processed, in
  order: the folder, the fetched count, and whether the file has been rewritten
  (line 126) or left alone (line 128).
\<close>

fun outcomes :: "event list \<Rightarrow> (string \<times> jsval \<times> bool) list" where
  "outcomes [] = []"
| "outcomes (LogUpdated f s # es) = (f, s, True) # outcomes es"
| "outcomes (LogNoChange f s # es) = (f, s, False) # outcomes es"
| "outcomes (e # es) = outcomes es"




text \<open>
  The values on which reading a property throws: \<^verbatim>\<open>null\<close> and
  \<^verbatim>\<open>undefined\<close> (\<^verbatim>\<open>JSON.parse\<close> never returns the latter).
\<close>

definition nullish :: "jsval \<Rightarrow> bool" where
  "nullish v = (v = JNull \<or> v = JUndefined)"

text \<open>
  The words of the specification that the code is compared with: a list of slugs in
  case-insensitive order (letters compared after lowering ASCII upper case), and a
  URL that splits into exactly two non-empty components.
\<close>

definition lower_char :: "char \<Rightarrow> char" where
  "lower_char c =
     (if CHR ''A'' \<le> c \<and> c \<le> CHR ''Z'' then char_of (of_char c + (32::nat)) else c)"

definition spec_case_insensitive_sorted :: "string list \<Rightarrow> bool" where
  "spec_case_insensitive_sorted slugs = sorted (map (map lower_char) slugs)"

definition spec_two_nonempty_components :: "string \<Rightarrow> bool" where
  "spec_two_nonempty_components u =
     (case url_parts u of [owner, name] \<Rightarrow> owner \<noteq> [] \<and> name \<noteq> [] | _ \<Rightarrow> False)"

section \<open>Inputs of the concrete instances\<close>

text \<open>
  A world for concrete instances: the credential is set, the projects directory is
  empty, and every request is rejected. Instances change the fields they need.
\<close>

definition world0 :: world where
  "world0 = \<lparr>token = Some ''secret'', listing = Some [], is_dir = (\<lambda>name. None),
     files = (\<lambda>p. None), read_only = (\<lambda>p. False), net = (\<lambda>n q. Rejected),
     requests = 0, trace = []\<rparr>"

text \<open>
  A catalog of 51 descriptors for concrete instances: the first and the last have a
  well-formed URL, the others do not; and a world whose service answers the first
  request with status 502 and every later one with a count of 7 for every key.
\<close>

definition example_projects :: "project list" where
  "example_projects =
     map (\<lambda>n. \<lparr>folder = dec n, path = json_path (dec n),
                data = JObj [(''github_repo'',
                              JStr (if n = 0 \<or> n = 50 then ''https://github.com/acme/'' @ dec n
                                    else dec n))]\<rparr>) [0..<51]"

definition example_repositories :: "repository list" where
  "example_repositories =
     map (\<lambda>n. \<lparr>slug = dec n,
                url = JStr (if n = 0 then ''https://github.com/acme/'' @ dec n else dec n)\<rparr>)
       [0..<50]"

definition example_world :: world where
  "example_world =
     world0\<lparr>net := (\<lambda>n q. if n = 0 then Status 502 ''Bad Gateway''
                           else Body False (\<lambda>k. Some (Some 7)))\<rparr>"



definition spec_example_world :: world where
  "spec_example_world =
     world0\<lparr>net := (\<lambda>n q. Body False
                (\<lambda>k. if k = ''repo0'' then Some (Some 3)
                     else if k = ''repo1'' then Some (Some 10) else None))\<rparr>"

definition bar_text :: string where
  "bar_text = ''{'' @ [CHR 0x0A]
       @ ''  '' @ [CHR 0x22] @ ''github_repo'' @ [CHR 0x22] @ '': ''
           @ [CHR 0x22] @ ''https://github.com/acme/bar'' @ [CHR 0x22] @ '','' @ [CHR 0x0A]
       @ ''  '' @ [CHR 0x22] @ ''stars'' @ [CHR 0x22] @ '': 3'' @ [CHR 0x0A]
       @ ''}'' @ [CHR 0x0A]"

text \<open>
  The same example on disk, as the specification gives the two files, with
  \<^verbatim>\<open>JSON.parse\<close> given on these two texts.
\<close>

definition spec_example_parse :: "string \<Rightarrow> jsval option" where
  "spec_example_parse raw =
     (if raw = ''{'' @ [CHR 0x22] @ ''github_repo'' @ [CHR 0x22] @ '':''
                 @ [CHR 0x22] @ ''https://github.com/acme/foo'' @ [CHR 0x22] @ '',''
                 @ [CHR 0x22] @ ''stars'' @ [CHR 0x22] @ '':10}''
      then Some (JObj [(''github_repo'', JStr ''https://github.com/acme/foo''),
                       (''stars'', JNum 10)])
      else if raw = ''{'' @ [CHR 0x22] @ ''github_repo'' @ [CHR 0x22] @ '':''
                 @ [CHR 0x22] @ ''https://github.com/acme/bar'' @ [CHR 0x22] @ ''}''
      then Some (JObj [(''github_repo'', JStr ''https://github.com/acme/bar'')])
      else None)"

definition spec_example_disk :: world where
  "spec_example_disk =
     spec_example_world\<lparr>
       listing := Some [''foo'', ''bar'', ''README.md''],
       is_dir := (\<lambda>name. Some (name \<noteq> ''README.md'')),
       files := [json_path ''foo'' \<mapsto>
                   ''{'' @ [CHR 0x22] @ ''github_repo'' @ [CHR 0x22] @ '':''
                   @ [CHR 0x22] @ ''https://github.com/acme/foo'' @ [CHR 0x22] @ '',''
                   @ [CHR 0x22] @ ''stars'' @ [CHR 0x22] @ '':10}'',
                 json_path ''bar'' \<mapsto>
                   ''{'' @ [CHR 0x22] @ ''github_repo'' @ [CHR 0x22] @ '':''
                   @ [CHR 0x22] @ ''https://github.com/acme/bar'' @ [CHR 0x22] @ ''}'']\<rparr>"

text \<open>
  The example with a third folder \<^verbatim>\<open>x\<close>, whose descriptor file holds the text
  given, and \<^verbatim>\<open>JSON.parse\<close> on the texts \<^verbatim>\<open>null\<close> and \<^verbatim>\<open>5\<close> too.
\<close>

definition abort_example_parse :: "string \<Rightarrow> jsval option" where
  "abort_example_parse raw =
     (if raw = ''null'' then Some JNull
      else if raw = ''5'' then Some (JNum 5)
      else spec_example_parse raw)"

definition abort_example_disk :: "string \<Rightarrow> world" where
  "abort_example_disk txt =
     spec_example_disk\<lparr>listing := Some [''foo'', ''bar'', ''x''],
       is_dir := (\<lambda>name. Some True),
       files := (files spec_example_disk)(json_path ''x'' \<mapsto> txt)\<rparr>"


section \<open>Basic facts\<close>

lemma concat_batches_from: "concat (batches_from i ps) = drop i ps"
proof (induction i ps rule: batches_from.induct)
  case (1 i ps)
  show ?case
  proof (cases "i < length ps")
    case True
    have "take BATCH_SIZE (drop i ps) @ drop (i + BATCH_SIZE) ps = drop i ps"
      by (metis add.commute append_take_drop_id drop_drop)
    with True 1 show ?thesis
      by (subst batches_from.simps) (simp add: slice_def)
  next
    case False
    then show ?thesis by (subst batches_from.simps) simp
  qed
qed

lemma ceil_step: "0 < (m::nat) \<Longrightarrow> Suc ((m - 50 + 49) div 50) = (m + 49) div 50"
proof (cases "m < 50")
  case True
  assume "0 < m"
  with True have "(m + 49) div 50 = 1" by (intro div_nat_eqI) simp_all
  with True show ?thesis by simp
next
  case False
  then obtain k where "m = k + 50" by (metis le_add_diff_inverse2 not_less)
  then show ?thesis by simp
qed

lemma length_batches_from:
  "length (batches_from i ps) = (length ps - i + 49) div 50"
proof (induction i ps rule: batches_from.induct)
  case (1 i ps)
  show ?case
  proof (cases "i < length ps")
    case True
    with 1 have "length (batches_from i ps)
        = Suc ((length ps - (i + BATCH_SIZE) + 49) div 50)"
      by (subst batches_from.simps) simp
    also have "\<dots> = Suc ((length ps - i - 50 + 49) div 50)"
      by (simp add: BATCH_SIZE_def)
    also from True have "\<dots> = (length ps - i + 49) div 50"
      by (intro ceil_step) simp
    finally show ?thesis .
  next
    case False
    then show ?thesis
      by (subst batches_from.simps) simp
  qed
qed

lemma batches_from_sizes:
  "b \<in> set (batches_from i ps) \<Longrightarrow> b \<noteq> [] \<and> length b \<le> 50"
proof (induction i ps rule: batches_from.induct)
  case (1 i ps)
  from "1.prems" show ?case
    by (subst (asm) batches_from.simps)
       (auto simp: slice_def BATCH_SIZE_def split: if_splits dest: "1.IH")
qed

lemma nth_batches_from:
  "k < length (batches_from i ps) \<Longrightarrow>
   batches_from i ps ! k = slice (i + k * BATCH_SIZE) (i + k * BATCH_SIZE + BATCH_SIZE) ps"
proof (induction i ps arbitrary: k rule: batches_from.induct)
  case (1 i ps)
  show ?case
  proof (cases "i < length ps")
    case True
    then have unf: "batches_from i ps
        = slice i (i + BATCH_SIZE) ps # batches_from (i + BATCH_SIZE) ps"
      by (subst batches_from.simps) simp
    show ?thesis
    proof (cases k)
      case 0
      then show ?thesis by (simp add: unf)
    next
      case (Suc k')
      with "1.prems" unf have "k' < length (batches_from (i + BATCH_SIZE) ps)" by simp
      from "1.IH"[OF True this] Suc show ?thesis
        by (simp add: unf add.assoc add.left_commute)
    qed
  next
    case False
    with "1.prems" show ?thesis by (subst (asm) batches_from.simps) simp
  qed
qed

lemma ceil_div_50: "(n + 49) div 50 = nat \<lceil>real n / 50\<rceil>"
proof -
  have "\<lceil>real n / 50\<rceil> = \<lceil>real_of_int (int n) / real_of_int 50\<rceil>" by simp
  also have "\<dots> = - (- int n div 50)" by (rule ceiling_divide_eq_div)
  also have "\<dots> = int ((n + 49) div 50)" by (simp add: zdiv_int)
  finally show ?thesis by simp
qed

lemma announced_append [simp]: "announced (es @ es') = announced es @ announced es'"
  by (induction es rule: announced.induct) auto

lemma written_append [simp]: "written (es @ es') = written es @ written es'"
  by (induction es rule: written.induct) auto

lemma fetchStarCounts_frame:
  assumes "fetchStarCounts rs w = (r, w')"
  shows "files w' = files w" and "read_only w' = read_only w" and "net w' = net w"
    and "written (trace w') = written (trace w)"
    and "announced (trace w') = announced (trace w)"
  using assms
  by (auto simp: fetchStarCounts_def emit_def Let_def
           split: sum.splits response.splits if_splits)

lemma update_loop_announced:
  "update_loop j b cs t w = (r, t', w') \<Longrightarrow> announced (trace w') = announced (trace w)"
proof (induction b arbitrary: j t w)
  case Nil
  then show ?case by simp
next
  case (Cons p b)
  from Cons.prems show ?case
    by (auto simp: Let_def emit_def write_file_def split: option.splits if_splits
             dest!: Cons.IH)
qed

lemma process_batch_announced:
  assumes "process_batch i b t w = Inr (t', w')"
  shows "announced (trace w') = announced (trace w) @ [i div BATCH_SIZE + 1]"
proof -
  let ?w1 = "emit (LogFetching (i div BATCH_SIZE + 1)) w"
  have w1: "announced (trace ?w1) = announced (trace w) @ [i div BATCH_SIZE + 1]"
    by (simp add: emit_def)
  from assms obtain rs where rs: "repositories_of b = Some rs"
    by (auto simp: process_batch_def Let_def split: option.splits)
  obtain r w2 where f: "fetchStarCounts rs ?w1 = (r, w2)" by (cases "fetchStarCounts rs ?w1")
  from fetchStarCounts_frame(5)[OF f] w1
  have w2: "announced (trace w2) = announced (trace w) @ [i div BATCH_SIZE + 1]" by simp
  show ?thesis
  proof (cases r)
    case (Inl e)
    with assms rs f w2 show ?thesis
      by (auto simp: process_batch_def Let_def emit_def)
  next
    case (Inr cs)
    obtain x t3 w3 where u: "update_loop 0 b cs t w2 = (x, t3, w3)"
      by (cases "update_loop 0 b cs t w2")
    from update_loop_announced[OF u] w2
    have "announced (trace w3) = announced (trace w) @ [i div BATCH_SIZE + 1]" by simp
    with assms rs f Inr u show ?thesis
      by (auto simp: process_batch_def Let_def emit_def split: option.splits)
  qed
qed

lemma main_loop_announced:
  "main_loop i ps t w = Inr (t', w') \<Longrightarrow>
   announced (trace w') = announced (trace w)
     @ map (\<lambda>k. (i + k * BATCH_SIZE) div BATCH_SIZE + 1) [0..<length (batches_from i ps)]"
proof (induction i ps t w rule: main_loop.induct)
  case (1 i ps t w)
  show ?case
  proof (cases "i < length ps")
    case False
    with "1.prems" show ?thesis
      by (subst batches_from.simps) (simp add: main_loop.simps)
  next
    case True
    let ?b = "slice i (i + BATCH_SIZE) ps"
    from True "1.prems" obtain t1 w1 where pb: "process_batch i ?b t w = Inr (t1, w1)"
      by (subst (asm) main_loop.simps) (auto split: sum.splits)
    let ?w1 = "if i + BATCH_SIZE < length ps then emit Sleep w1 else w1"
    from True "1.prems" pb have rest: "main_loop (i + BATCH_SIZE) ps t1 ?w1 = Inr (t', w')"
      by (subst (asm) main_loop.simps) simp
    have "announced (trace ?w1) = announced (trace w) @ [i div BATCH_SIZE + 1]"
      using process_batch_announced[OF pb] by (simp add: emit_def)
    moreover note "1.IH"[OF True pb refl rest]
    moreover from True have "batches_from i ps = ?b # batches_from (i + BATCH_SIZE) ps"
      by (subst batches_from.simps) simp
    ultimately show ?thesis
      by (simp add: map_upt_Suc add.assoc add.left_commute del: upt_Suc)
  qed
qed

lemma get_prop_None: "get_prop d k = None \<longleftrightarrow> nullish d"
  by (cases d) (auto simp: nullish_def split: option.splits)

lemma repositories_of_None: "repositories_of b = None \<longleftrightarrow> (\<exists>p \<in> set b. nullish (data p))"
proof (induction b)
  case Nil
  then show ?case by simp
next
  case (Cons a b)
  show ?case
  proof (cases "get_prop (data a) ''github_repo''")
    case None
    then have "nullish (data a)" by (simp add: get_prop_None)
    with None show ?thesis by simp
  next
    case (Some u)
    then have "\<not> nullish (data a)" using get_prop_None[of "data a" "''github_repo''"] by simp
    with Some Cons.IH show ?thesis by (auto split: option.splits)
  qed
qed

lemma process_batch_Inl: "isl (process_batch i b t w) \<longleftrightarrow> (\<exists>p \<in> set b. nullish (data p))"
proof (cases "repositories_of b")
  case None
  then show ?thesis
    using repositories_of_None[of b] by (simp add: process_batch_def Let_def)
next
  case (Some rs)
  then have "\<not> isl (process_batch i b t w)"
    by (auto simp: process_batch_def Let_def split: prod.splits sum.splits option.splits)
  with Some show ?thesis using repositories_of_None[of b] by simp
qed

lemma set_drop_slice:
  "set (drop i ps) = set (slice i (i + BATCH_SIZE) ps) \<union> set (drop (i + BATCH_SIZE) ps)"
proof -
  have "drop i ps = take BATCH_SIZE (drop i ps) @ drop (i + BATCH_SIZE) ps"
    by (metis add.commute append_take_drop_id drop_drop)
  then have "set (drop i ps) = set (take BATCH_SIZE (drop i ps) @ drop (i + BATCH_SIZE) ps)"
    by simp
  then show ?thesis by (simp add: slice_def)
qed

lemma main_loop_Inl:
  "isl (main_loop i ps t w) \<longleftrightarrow> (\<exists>p \<in> set (drop i ps). nullish (data p))"
proof (induction i ps t w rule: main_loop.induct)
  case (1 i ps t w)
  show ?case
  proof (cases "i < length ps")
    case False
    then show ?thesis by (simp add: main_loop.simps)
  next
    case True
    let ?b = "slice i (i + BATCH_SIZE) ps"
    show ?thesis
    proof (cases "process_batch i ?b t w")
      case (Inl w1)
      with process_batch_Inl[of i ?b t w] have "\<exists>p \<in> set ?b. nullish (data p)" by simp
      moreover from Inl True have "isl (main_loop i ps t w)"
        by (subst main_loop.simps) simp
      ultimately show ?thesis using set_drop_slice[of i ps] by auto
    next
      case (Inr r)
      obtain t1 w1 where r: "r = (t1, w1)" by (cases r)
      from Inr process_batch_Inl[of i ?b t w] have none: "\<not> (\<exists>p \<in> set ?b. nullish (data p))"
        by simp
      let ?w1 = "if i + BATCH_SIZE < length ps then emit Sleep w1 else w1"
      from Inr r True have "main_loop i ps t w = main_loop (i + BATCH_SIZE) ps t1 ?w1"
        by (subst main_loop.simps) simp
      moreover from "1.IH"[OF True Inr[unfolded r] refl]
      have "isl (main_loop (i + BATCH_SIZE) ps t1 ?w1)
          \<longleftrightarrow> (\<exists>p \<in> set (drop (i + BATCH_SIZE) ps). nullish (data p))" .
      ultimately show ?thesis using none set_drop_slice[of i ps] by auto
    qed
  qed
qed

lemma load_projects_nullish:
  "(\<exists>p \<in> set (fst (load_projects parse fs w)). nullish (data p))
   \<longleftrightarrow> (\<exists>f \<in> set fs. \<exists>raw d. files w (json_path f) = Some raw \<and> parse raw = Some d \<and> nullish d)"
proof (induction fs arbitrary: w)
  case Nil
  then show ?case by simp
next
  case (Cons f fs)
  have e: "files (emit (LogWarn f) w) = files w" by (simp add: emit_def)
  show ?case
    using Cons.IH[of w] Cons.IH[of "emit (LogWarn f) w"] unfolding e
    by (auto split: option.splits prod.splits)
qed

section \<open>Which descriptors enter the composite query\<close>

lemma length_split_on: "length (split_on c s) = Suc (count_list s c)"
  by (induction s) (auto split: list.splits)

lemma map_queries_Inr:
  "map_queries idx rs = Inr mapped \<Longrightarrow>
   length mapped = length rs \<and> (\<forall>j < length rs. query_of (idx + j) (rs ! j) = Inr (mapped ! j))"
proof (induction rs arbitrary: idx mapped)
  case Nil
  then show ?case by simp
next
  case (Cons r rs)
  from Cons.prems obtain q qs where q: "query_of idx r = Inr q"
    and qs: "map_queries (Suc idx) rs = Inr qs" and m: "mapped = q # qs"
    by (auto split: sum.splits)
  from Cons.IH[OF qs] have len: "length qs = length rs"
    and nth: "\<And>j. j < length rs \<Longrightarrow> query_of (Suc idx + j) (rs ! j) = Inr (qs ! j)"
    by auto
  show ?case
  proof (intro conjI allI impI)
    show "length mapped = length (r # rs)" using len m by simp
  next
    fix j assume "j < length (r # rs)"
    then show "query_of (idx + j) ((r # rs) ! j) = Inr (mapped ! j)"
      using q nth m by (cases j) auto
  qed
qed

lemma query_of_Inr:
  "query_of idx r = Inr q \<Longrightarrow>
   \<exists>u. url r = JStr u \<and> (q \<noteq> None \<longleftrightarrow> length (url_parts u) = 2) \<and> q \<noteq> Some []"
  unfolding query_of_def
  by (auto split: jsval.splits list.splits simp: repo_key_def)

lemma set_filter_Boolean: "set (filter_Boolean qs) = {q. Some q \<in> set qs \<and> q \<noteq> []}"
  unfolding filter_Boolean_def by (induction qs) (auto split: option.splits)

text \<open>
  C7 (as amended). In a batch whose \<^verbatim>\<open>github_repo\<close> values are all strings (so
  that building the query raises no exception), the descriptor at position \<open>j\<close>
  contributes a lookup to the composite query exactly when replacing the first
  occurrence of the host prefix by the empty string and splitting at \<open>/\<close> gives
  exactly two components, that is, when what is left of the URL holds exactly one
  \<open>/\<close>. The components are not required to be non-empty.
\<close>

theorem query_includes_two_part_urls:
  assumes "map_queries 0 rs = Inr mapped" and "j < length rs"
  shows "\<exists>u. url (rs ! j) = JStr u
           \<and> ((\<exists>q. mapped ! j = Some q \<and> q \<in> set (filter_Boolean mapped))
                \<longleftrightarrow> length (url_parts u) = 2)
           \<and> (length (url_parts u) = 2
                \<longleftrightarrow> count_list (replace_first HOST [] u) CHR ''/'' = 1)"
proof -
  from map_queries_Inr[OF assms(1)] assms(2)
  have len: "length mapped = length rs" and q: "query_of j (rs ! j) = Inr (mapped ! j)"
    by auto
  from query_of_Inr[OF q] obtain u where u: "url (rs ! j) = JStr u"
    and two: "mapped ! j \<noteq> None \<longleftrightarrow> length (url_parts u) = 2"
    and ne: "mapped ! j \<noteq> Some []" by blast
  have "(\<exists>q. mapped ! j = Some q \<and> q \<in> set (filter_Boolean mapped)) \<longleftrightarrow> mapped ! j \<noteq> None"
    using ne len assms(2) by (auto simp: set_filter_Boolean) (metis nth_mem)
  moreover have "length (url_parts u) = 2
      \<longleftrightarrow> count_list (replace_first HOST [] u) CHR ''/'' = 1"
    by (simp add: url_parts_def length_split_on)
  ultimately show ?thesis using u two by auto
qed

theorem query_includes_two_part_urls_witness:
  "map_queries 0 [\<lparr>slug = ''foo'', url = JStr ''https://github.com/acme/foo''\<rparr>,
                  \<lparr>slug = ''bar'', url = JStr ''https://example.org/bar''\<rparr>]
     = Inr [Some (''repo0: repository(owner: '' @ [CHR 0x22] @ ''acme'' @ [CHR 0x22]
                  @ '', name: '' @ [CHR 0x22] @ ''foo'' @ [CHR 0x22] @ '') { stargazerCount }''),
            None]
   \<and> (\<exists>u. url ([\<lparr>slug = ''foo'', url = JStr ''https://github.com/acme/foo''\<rparr>,
                  \<lparr>slug = ''bar'', url = JStr ''https://example.org/bar''\<rparr>] ! 1) = JStr u
         \<and> length (url_parts u) \<noteq> 2
         \<and> count_list (replace_first HOST [] u) CHR ''/'' \<noteq> 1)"
proof -
  let ?rs = "[\<lparr>slug = ''foo'', url = JStr ''https://github.com/acme/foo''\<rparr>,
              \<lparr>slug = ''bar'', url = JStr ''https://example.org/bar''\<rparr>]"
  let ?m = "[Some (''repo0: repository(owner: '' @ [CHR 0x22] @ ''acme'' @ [CHR 0x22]
                  @ '', name: '' @ [CHR 0x22] @ ''foo'' @ [CHR 0x22] @ '') { stargazerCount }''),
             None]"
  have m: "map_queries 0 ?rs = Inr ?m" by code_simp
  have j: "(1::nat) < length ?rs" by simp
  from query_includes_two_part_urls[OF m j] obtain u where
    u: "url (?rs ! 1) = JStr u"
    and a: "(\<exists>q. ?m ! 1 = Some q \<and> q \<in> set (filter_Boolean ?m)) \<longleftrightarrow> length (url_parts u) = 2"
    and b: "length (url_parts u) = 2 \<longleftrightarrow> count_list (replace_first HOST [] u) CHR ''/'' = 1"
    by blast
  from a have "length (url_parts u) \<noteq> 2" by simp
  with b u m show ?thesis by blast
qed

text \<open>
  The claim as the specification words it fails: \<^verbatim>\<open>https://github.com/acme/\<close>
  splits into \<^verbatim>\<open>acme\<close> and the empty string, and is included in the query.
\<close>

theorem empty_component_counterexample:
  "\<not> ((\<exists>q. query_of 0 \<lparr>slug = ''acme'', url = JStr ''https://github.com/acme/''\<rparr> = Inr (Some q))
       \<longleftrightarrow> spec_two_nonempty_components ''https://github.com/acme/'')"
  by (simp add: query_of_def spec_two_nonempty_components_def url_parts_def HOST_def)

section \<open>The update loop\<close>






















text \<open>
  The example of the specification, run as a whole: the script exits with status 0,
  rewrites \<^verbatim>\<open>bar/project.json\<close> with the count 3 and leaves
  \<^verbatim>\<open>foo/project.json\<close> as it is.
\<close>

lemma spec_example_run:
  "fst (script spec_example_parse spec_example_disk) = 0
   \<and> written (trace (snd (script spec_example_parse spec_example_disk)))
       = [(''projects/bar/project.json'', bar_text)]
   \<and> files (snd (script spec_example_parse spec_example_disk)) (json_path ''foo'')
       = files spec_example_disk (json_path ''foo'')"
  by code_simp

section \<open>The order of the scanned folders\<close>

text \<open>
  \<^verbatim>\<open>main\<close> loads the descriptors of the folders that \<open>scan_folders\<close> gives, in
  that order.
\<close>

lemma main_visits_scan_folders:
  "main parse w =
     (case scan_folders w of
        None \<Rightarrow> (1, emit (LogFatal ''Could not read projects/ directory'') w)
      | Some slugs \<Rightarrow>
          (case load_projects parse slugs (emit (LogStart (length slugs)) w) of
             (projects, w2) \<Rightarrow>
               (case main_loop 0 projects 0 w2 of
                  Inl w3 \<Rightarrow> (1, w3)
                | Inr (n, w3) \<Rightarrow> (0, emit (LogSummary n) w3))))"
  by (simp add: main_def scan_folders_def split: option.splits)

lemma load_projects_folders:
  "map folder (fst (load_projects parse fs w))
     = [f \<leftarrow> fs. \<exists>raw d. files w (json_path f) = Some raw \<and> parse raw = Some d]"
proof (induction fs arbitrary: w)
  case Nil
  then show ?case by simp
next
  case (Cons f fs)
  have e: "files (emit (LogWarn f) w) = files w" by (simp add: emit_def)
  show ?case
    using Cons.IH[of w] Cons.IH[of "emit (LogWarn f) w"] unfolding e
    by (auto split: option.splits prod.splits)
qed

text \<open>
  C6 (as amended). When the projects directory can be scanned, the folders are
  visited in ascending order of their code units, which is a case-sensitive order,
  and they are exactly the entries of the directory that are directories, each once
  per listing.
\<close>

theorem scan_folders_sorted:
  assumes "scan_folders w = Some slugs"
  shows "sorted slugs
         \<and> (\<exists>names. listing w = Some names
               \<and> mset slugs = mset [name \<leftarrow> names. is_dir w name = Some True])"
  using assms
  by (auto simp: scan_folders_def read_folders_def split: option.splits if_splits)

theorem scan_folders_sorted_witness:
  "scan_folders (world0\<lparr>listing := Some [''b'', ''README.md'', ''a'', ''B''],
                        is_dir := (\<lambda>name. Some (name \<noteq> ''README.md''))\<rparr>)
     = Some [''B'', ''a'', ''b'']
   \<and> sorted [''B'', ''a'', ''b'']"
proof -
  let ?w = "world0\<lparr>listing := Some [''b'', ''README.md'', ''a'', ''B''],
                        is_dir := (\<lambda>name. Some (name \<noteq> ''README.md''))\<rparr>"
  have s: "scan_folders ?w = Some [''B'', ''a'', ''b'']" by code_simp
  from scan_folders_sorted[OF s] s show ?thesis by blast
qed

text \<open>
  The order is not case-insensitive: of the folders \<^verbatim>\<open>a\<close> and \<^verbatim>\<open>B\<close>,
  \<^verbatim>\<open>B\<close> comes first.
\<close>

theorem case_sensitive_order_counterexample:
  "scan_folders (world0\<lparr>listing := Some [''a'', ''B''], is_dir := (\<lambda>name. Some True)\<rparr>)
     = Some [''B'', ''a'']
   \<and> \<not> spec_case_insensitive_sorted [''B'', ''a'']"
  by code_simp

section \<open>The batch partition\<close>

text \<open>
  The batch loop hands to its body exactly the batches of \<open>batches_from\<close>, in
  order.
\<close>

lemma batches_from_Nil: "batches_from i ps = [] \<longleftrightarrow> \<not> i < length ps"
  by (subst batches_from.simps) simp

lemma main_loop_in_batches:
  "main_loop i ps t w = in_batches i (batches_from i ps) t w"
proof (induction i ps t w rule: main_loop.induct)
  case (1 i ps t w)
  show ?case
  proof (cases "i < length ps")
    case False
    then show ?thesis
      by (subst main_loop.simps, subst batches_from.simps) simp
  next
    case True
    let ?b = "slice i (i + BATCH_SIZE) ps"
    from True have unf: "batches_from i ps = ?b # batches_from (i + BATCH_SIZE) ps"
      by (subst batches_from.simps) simp
    show ?thesis
    proof (cases "process_batch i ?b t w")
      case (Inl w1)
      with True show ?thesis unfolding unf by (subst main_loop.simps) simp
    next
      case (Inr r)
      obtain t1 w1 where r: "r = (t1, w1)" by (cases r)
      let ?w1 = "if i + BATCH_SIZE < length ps then emit Sleep w1 else w1"
      from "1.IH"[OF True Inr[unfolded r] refl]
      have "main_loop (i + BATCH_SIZE) ps t1 ?w1
            = in_batches (i + BATCH_SIZE) (batches_from (i + BATCH_SIZE) ps) t1 ?w1" .
      with True Inr r show ?thesis
        unfolding unf by (subst main_loop.simps) (simp add: batches_from_Nil)
    qed
  qed
qed

text \<open>
  C4. For a list of \<open>N\<close> loaded descriptors the batch loop takes exactly
  \<open>\<lceil>N / 50\<rceil>\<close> batches, each with at least one and at most 50 descriptors; batch
  number \<open>k\<close> (counted from 0) is the contiguous slice from index \<open>50 k\<close> up to
  \<open>50 k + 50\<close>, and the batches concatenated in order are the original list. The
  loop is the processing of these batches, one after the other and in order, by its
  body: each is turned into one composite query and one update pass. A run of the
  loop that returns announces the batches \<open>1, ..., \<lceil>N / 50\<rceil>\<close> in order.
\<close>

theorem batch_partition:
  "length (batches_from 0 ps) = nat \<lceil>real (length ps) / 50\<rceil>
   \<and> (\<forall>b \<in> set (batches_from 0 ps). b \<noteq> [] \<and> length b \<le> 50)
   \<and> (\<forall>k < length (batches_from 0 ps).
         batches_from 0 ps ! k = slice (50 * k) (50 * k + 50) ps)
   \<and> concat (batches_from 0 ps) = ps
   \<and> (\<forall>t w. main_loop 0 ps t w = in_batches 0 (batches_from 0 ps) t w)
   \<and> (\<forall>t w t' w'. main_loop 0 ps t w = Inr (t', w') \<longrightarrow>
         announced (trace w') = announced (trace w) @ [1..<Suc (length (batches_from 0 ps))])"
proof -
  have a: "length (batches_from 0 ps) = nat \<lceil>real (length ps) / 50\<rceil>"
    by (simp add: length_batches_from ceil_div_50)
  have b: "\<forall>b \<in> set (batches_from 0 ps). b \<noteq> [] \<and> length b \<le> 50"
    using batches_from_sizes by blast
  have c: "\<forall>k < length (batches_from 0 ps).
         batches_from 0 ps ! k = slice (50 * k) (50 * k + 50) ps"
    using nth_batches_from[of _ 0 ps] by (simp add: BATCH_SIZE_def mult.commute)
  have d: "concat (batches_from 0 ps) = ps" by (simp add: concat_batches_from)
  have e: "\<forall>t w t' w'. main_loop 0 ps t w = Inr (t', w') \<longrightarrow>
         announced (trace w') = announced (trace w) @ [1..<Suc (length (batches_from 0 ps))]"
  proof (intro allI impI)
    fix t w t' w' assume "main_loop 0 ps t w = Inr (t', w')"
    from main_loop_announced[OF this]
    show "announced (trace w') = announced (trace w) @ [1..<Suc (length (batches_from 0 ps))]"
      by (simp add: BATCH_SIZE_def map_Suc_upt del: upt_Suc)
  qed
  have f: "\<forall>t w. main_loop 0 ps t w = in_batches 0 (batches_from 0 ps) t w"
    by (simp add: main_loop_in_batches)
  from a b c d f e show ?thesis by blast
qed

theorem batch_partition_witness:
  "length (batches_from 0
      (map (\<lambda>n. \<lparr>folder = dec n, path = json_path (dec n),
                  data = JObj [(''github_repo'', JStr ''x'')]\<rparr>) [0..<51])) = 2
   \<and> map length (batches_from 0
      (map (\<lambda>n. \<lparr>folder = dec n, path = json_path (dec n),
                  data = JObj [(''github_repo'', JStr ''x'')]\<rparr>) [0..<51])) = [50, 1]
   \<and> (\<exists>t' w'. main_loop 0
      (map (\<lambda>n. \<lparr>folder = dec n, path = json_path (dec n),
                  data = JObj [(''github_repo'', JStr ''x'')]\<rparr>) [0..<51]) 0 world0
         = Inr (t', w') \<and> announced (trace w') = [1, 2])"
proof -
  let ?ps = "map (\<lambda>n. \<lparr>folder = dec n, path = json_path (dec n),
                  data = JObj [(''github_repo'', JStr ''x'')]\<rparr>) [0..<51]"
  have len: "length ?ps = 51" by simp
  have "\<not> isl (main_loop 0 ?ps 0 world0)"
    unfolding main_loop_Inl by (auto simp: nullish_def)
  then obtain t' w' where run: "main_loop 0 ?ps 0 world0 = Inr (t', w')"
    by (cases "main_loop 0 ?ps 0 world0") auto
  from batch_partition[of ?ps]
  have n: "length (batches_from 0 ?ps) = nat \<lceil>real (length ?ps) / 50\<rceil>"
    and k: "\<forall>k < length (batches_from 0 ?ps).
         batches_from 0 ?ps ! k = slice (50 * k) (50 * k + 50) ?ps"
    and a: "\<forall>t w t' w'. main_loop 0 ?ps t w = Inr (t', w') \<longrightarrow>
         announced (trace w') = announced (trace w) @ [1..<Suc (length (batches_from 0 ?ps))]"
    by blast+
  from n have n2: "length (batches_from 0 ?ps) = 2" unfolding len by simp
  from k n2 have "length (batches_from 0 ?ps ! 0) = 50" "length (batches_from 0 ?ps ! 1) = 1"
    unfolding slice_def by (simp_all only: length_take length_drop len)
  with n2 have l: "map length (batches_from 0 ?ps) = [50, 1]"
    by (cases "batches_from 0 ?ps"; cases "tl (batches_from 0 ?ps)") auto
  from a run have "announced (trace w') = announced (trace world0) @ [1..<Suc (length (batches_from 0 ?ps))]"
    by blast
  then have "announced (trace w') = [1, 2]"
    unfolding n2 by (simp add: world0_def upt_rec)
  with n2 l run show ?thesis by blast
qed

section \<open>The exit status\<close>

text \<open>
  The exit status of the script: 1 when \<^verbatim>\<open>GITHUB_TOKEN\<close> is unset or empty,
  when the projects directory cannot be scanned (listing it, or the
  \<^verbatim>\<open>statSync\<close> of one of its entries, throws), and when the descriptor file of
  some folder parses to \<^verbatim>\<open>null\<close>; 0 in every other case, whatever descriptors
  could not be loaded and whatever batches failed.
\<close>

lemma exit_status_cases:
  "fst (script parse w) =
     (if token w = None \<or> token w = Some [] then 1
      else case read_folders w of
             None \<Rightarrow> 1
           | Some folders \<Rightarrow>
               if \<exists>f \<in> set folders. \<exists>raw d. files w (json_path f) = Some raw
                     \<and> parse raw = Some d \<and> nullish d
               then 1 else 0)"
proof (cases "token w = None \<or> token w = Some []")
  case True
  then show ?thesis by (auto simp: script_def)
next
  case False
  show ?thesis
  proof (cases "read_folders w")
    case None
    with False show ?thesis by (simp add: script_def main_def)
  next
    case (Some folders)
    let ?w1 = "emit (LogStart (length folders)) w"
    obtain ps w2 where l: "load_projects parse (sort folders) ?w1 = (ps, w2)"
      by (cases "load_projects parse (sort folders) ?w1")
    have "isl (main_loop 0 ps 0 w2) \<longleftrightarrow> (\<exists>p \<in> set ps. nullish (data p))"
      by (simp add: main_loop_Inl)
    also have "\<dots> \<longleftrightarrow> (\<exists>f \<in> set folders. \<exists>raw d. files w (json_path f) = Some raw
                     \<and> parse raw = Some d \<and> nullish d)"
      using load_projects_nullish[of parse "sort folders" ?w1] l by (simp add: emit_def)
    finally have "fst (main parse w) = (if \<exists>f \<in> set folders. \<exists>raw d. files w (json_path f) = Some raw
                     \<and> parse raw = Some d \<and> nullish d then 1 else 0)"
      using Some l by (auto simp: main_def split: sum.splits)
    with False Some show ?thesis by (auto simp: script_def)
  qed
qed

text \<open>
  C9 fails on the following input. The credential is set and the projects directory
  is listed, and the descriptor file of the folder \<^verbatim>\<open>x\<close> holds \<^verbatim>\<open>null\<close>:
  line 113 reads \<^verbatim>\<open>p.data.github_repo\<close> outside the \<^verbatim>\<open>try\<close> statement of
  lines 115-135, the \<^verbatim>\<open>TypeError\<close> reaches the handler of lines 146-149, and
  the process exits with status 1 before any request is sent or file written, where
  the specification promises status 0 for a descriptor that fails. The descriptors
  beside it fail recoverably: with the number \<^verbatim>\<open>5\<close> in the file the exception
  is thrown inside \<^verbatim>\<open>fetchStarCounts\<close>, the batch is given up and the status is
  0; with a text that does not parse the folder is skipped, the other descriptors are
  updated and the status is 0.
\<close>

theorem null_descriptor_aborts_run:
  "token (abort_example_disk ''null'') = Some ''secret''
   \<and> read_folders (abort_example_disk ''null'') = Some [''foo'', ''bar'', ''x'']
   \<and> fst (script abort_example_parse (abort_example_disk ''null'')) = 1
   \<and> written (trace (snd (script abort_example_parse (abort_example_disk ''null'')))) = []
   \<and> fst (script abort_example_parse (abort_example_disk ''5'')) = 0
   \<and> written (trace (snd (script abort_example_parse (abort_example_disk ''5'')))) = []
   \<and> fst (script abort_example_parse (abort_example_disk ''{'')) = 0
   \<and> written (trace (snd (script abort_example_parse (abort_example_disk ''{''))))
         = [(''projects/bar/project.json'', bar_text)]"
  by code_simp

section \<open>A batch whose query fails\<close>

lemma process_batch_failed:
  assumes "repositories_of batch = Some rs"
      and "fetchStarCounts rs (emit (LogFetching (i div BATCH_SIZE + 1)) w) = (Inl e, w2)"
  shows "process_batch i batch t w = Inr (t, emit (LogBatchFailed e) w2)"
    and "files w2 = files w" and "written (trace w2) = written (trace w)"
proof -
  show "process_batch i batch t w = Inr (t, emit (LogBatchFailed e) w2)"
    using assms by (simp add: process_batch_def Let_def)
  from fetchStarCounts_frame(1,4)[OF assms(2)]
  show "files w2 = files w" and "written (trace w2) = written (trace w)"
    by (simp_all add: emit_def)
qed

lemma example_repositories_of:
  "repositories_of (slice 0 (0 + BATCH_SIZE) example_projects) = Some example_repositories"
  by code_simp

lemma example_fetch_fails:
  "fst (fetchStarCounts example_repositories
          (emit (LogFetching (0 div BATCH_SIZE + 1)) example_world))
     = Inl (ApiError 502 ''Bad Gateway'')"
  by code_simp

text \<open>
  C10. When the query of a batch raises an exception (the request is rejected, the
  status is not a success, or anything else \<^verbatim>\<open>fetchStarCounts\<close> throws), the
  batch ends with the counter of updates unchanged, no file written and no file
  changed: the writes of a batch come after its query has returned.
\<close>

theorem failed_query_writes_nothing:
  assumes "repositories_of batch = Some rs"
      and "fetchStarCounts rs (emit (LogFetching (i div BATCH_SIZE + 1)) w) = (Inl e, w2)"
  shows "\<exists>w'. process_batch i batch t w = Inr (t, w')
              \<and> files w' = files w \<and> written (trace w') = written (trace w)"
  using process_batch_failed[OF assms]
  by (auto simp: emit_def)

theorem failed_query_writes_nothing_witness:
  "repositories_of (slice 0 (0 + BATCH_SIZE) example_projects) = Some example_repositories
   \<and> fst (fetchStarCounts example_repositories
            (emit (LogFetching (0 div BATCH_SIZE + 1)) example_world))
       = Inl (ApiError 502 ''Bad Gateway'')
   \<and> (\<exists>w'. process_batch 0 (slice 0 (0 + BATCH_SIZE) example_projects) 0 example_world
                = Inr (0, w')
            \<and> files w' = files example_world
            \<and> written (trace w') = written (trace example_world))"
proof -
  let ?f = "fetchStarCounts example_repositories
              (emit (LogFetching (0 div BATCH_SIZE + 1)) example_world)"
  have f: "?f = (Inl (ApiError 502 ''Bad Gateway''), snd ?f)"
    using example_fetch_fails by (metis prod.collapse)
  from failed_query_writes_nothing[OF example_repositories_of f, of 0]
    example_repositories_of example_fetch_fails
  show ?thesis by blast
qed

text \<open>
  C8. When the query of the batch that starts at index \<open>i\<close> raises an exception,
  the failure is logged and the loop goes on with the batch at \<open>i + 50\<close>: the rest
  of the run is the run of the loop from there, with the files and the counter of
  updates as they were before the failed batch. The run then returns normally
  unless a later descriptor is \<^verbatim>\<open>null\<close>.
\<close>

theorem failed_batch_is_skipped:
  assumes "i < length projects"
      and "repositories_of (slice i (i + BATCH_SIZE) projects) = Some rs"
      and "fetchStarCounts rs (emit (LogFetching (i div BATCH_SIZE + 1)) w) = (Inl e, w2)"
  shows "main_loop i projects t w
           = main_loop (i + BATCH_SIZE) projects t
               (if i + BATCH_SIZE < length projects
                then emit Sleep (emit (LogBatchFailed e) w2)
                else emit (LogBatchFailed e) w2)
         \<and> files w2 = files w \<and> written (trace w2) = written (trace w)
         \<and> ((\<forall>p \<in> set (drop (i + BATCH_SIZE) projects). \<not> nullish (data p))
              \<longrightarrow> (\<exists>t' w'. main_loop i projects t w = Inr (t', w')))"
proof -
  note pb = process_batch_failed[OF assms(2,3)]
  from assms(1) pb(1)
  have step: "main_loop i projects t w
           = main_loop (i + BATCH_SIZE) projects t
               (if i + BATCH_SIZE < length projects
                then emit Sleep (emit (LogBatchFailed e) w2)
                else emit (LogBatchFailed e) w2)"
    by (subst main_loop.simps) simp
  have fin: "(\<forall>p \<in> set (drop (i + BATCH_SIZE) projects). \<not> nullish (data p))
              \<longrightarrow> (\<exists>t' w'. main_loop i projects t w = Inr (t', w'))"
  proof
    assume "\<forall>p \<in> set (drop (i + BATCH_SIZE) projects). \<not> nullish (data p)"
    then have "\<not> isl (main_loop i projects t w)"
      unfolding step main_loop_Inl by simp
    then show "\<exists>t' w'. main_loop i projects t w = Inr (t', w')"
      by (cases "main_loop i projects t w") auto
  qed
  from step pb(2,3) fin show ?thesis by blast
qed

text \<open>
  In the example the first batch fails with status 502; the second batch is still
  queried, its descriptor is rewritten with the fetched count, and the run returns.
\<close>

theorem failed_batch_is_skipped_witness:
  "(0::nat) < length example_projects
   \<and> repositories_of (slice 0 (0 + BATCH_SIZE) example_projects) = Some example_repositories
   \<and> fst (fetchStarCounts example_repositories
            (emit (LogFetching (0 div BATCH_SIZE + 1)) example_world))
       = Inl (ApiError 502 ''Bad Gateway'')
   \<and> (\<exists>t' w'. main_loop 0 example_projects 0 example_world = Inr (t', w')
         \<and> written (trace w')
             = [(''projects/50/project.json'',
                 file_text (JObj [(''github_repo'', JStr ''https://github.com/acme/50''),
                                  (''stars'', JNum 7)]))])"
proof -
  let ?f = "fetchStarCounts example_repositories
              (emit (LogFetching (0 div BATCH_SIZE + 1)) example_world)"
  let ?w' = "if 0 + BATCH_SIZE < length example_projects
             then emit Sleep (emit (LogBatchFailed (ApiError 502 ''Bad Gateway'')) (snd ?f))
             else emit (LogBatchFailed (ApiError 502 ''Bad Gateway'')) (snd ?f)"
  have h1: "(0::nat) < length example_projects" by (simp add: example_projects_def)
  have f: "?f = (Inl (ApiError 502 ''Bad Gateway''), snd ?f)"
    using example_fetch_fails by (metis prod.collapse)
  from failed_batch_is_skipped[OF h1 example_repositories_of f, of 0]
  have step: "main_loop 0 example_projects 0 example_world
                = main_loop (0 + BATCH_SIZE) example_projects 0 ?w'"
    by blast
  have rest: "case main_loop (0 + BATCH_SIZE) example_projects 0 ?w' of
                Inl x \<Rightarrow> False
              | Inr (t', w') \<Rightarrow> written (trace w')
                   = [(''projects/50/project.json'',
                       file_text (JObj [(''github_repo'', JStr ''https://github.com/acme/50''),
                                        (''stars'', JNum 7)]))]"
    by code_simp
  from rest step have "\<exists>t' w'. main_loop 0 example_projects 0 example_world = Inr (t', w')
         \<and> written (trace w')
             = [(''projects/50/project.json'',
                 file_text (JObj [(''github_repo'', JStr ''https://github.com/acme/50''),
                                  (''stars'', JNum 7)]))]"
    by (auto split: sum.splits)
  with h1 example_repositories_of example_fetch_fails show ?thesis by blast
qed

section \<open>Two consecutive runs\<close>

text \<open>
  The update loop, the body of the batch loop and the batch loop of a run, and of a
  second run that loads what the first one left and gets the same answers from the
  service.
\<close>

lemma outcomes_append [simp]: "outcomes (es @ es') = outcomes es @ outcomes es'"
  by (induction es rule: outcomes.induct) auto




















section \<open>A file is rewritten exactly when its count changed\<close>



section \<open>What a rewritten file holds\<close>



section \<open>A batch in which every URL is malformed\<close>

text \<open>
  When at least one descriptor of the batch enters the query and the service answers
  with a body, the result has one count per descriptor of the batch: position \<open>j\<close>
  holds the count that the body has under the key \<^verbatim>\<open>repo<j>\<close>, and 0 when the
  body has none there.
\<close>

lemma fetch_counts_aligned:
  assumes "map_queries 0 rs = Inr mapped" and "filter_Boolean mapped \<noteq> []"
      and "net w (requests w) (query_text (filter_Boolean mapped)) = Body errs answers"
  shows "fst (fetchStarCounts rs w)
           = Inr (map (\<lambda>j. case answers (repo_key j) of Some (Some n) \<Rightarrow> JNum n | _ \<Rightarrow> JNum 0)
                    [0..<length rs])"
  using assms
  by (simp add: fetchStarCounts_def Let_def extract_counts_def star_at_def)

text \<open>
  So a descriptor with a malformed URL that shares its batch with a well-formed one
  gets the count 0, and its file is rewritten with \<^verbatim>\<open>stars\<close> 0 when it stored
  another value: here \<^verbatim>\<open>bar\<close> is hosted elsewhere and stored 10, and the service
  answers 10 for \<^verbatim>\<open>foo\<close> under \<^verbatim>\<open>repo1\<close> and nothing under \<^verbatim>\<open>repo0\<close>.
\<close>

lemma malformed_url_beside_a_well_formed_one:
  "(case process_batch 0
           [\<lparr>folder = ''bar'', path = json_path ''bar'',
             data = JObj [(''github_repo'', JStr ''https://gitlab.com/acme/bar''),
                          (''stars'', JNum 10)]\<rparr>,
            \<lparr>folder = ''foo'', path = json_path ''foo'',
             data = JObj [(''github_repo'', JStr ''https://github.com/acme/foo''),
                          (''stars'', JNum 10)]\<rparr>]
           0 (world0\<lparr>net := (\<lambda>n q. Body False
                 (\<lambda>k. if k = ''repo1'' then Some (Some 10) else None))\<rparr>) of
      Inl x \<Rightarrow> False
    | Inr (n, w') \<Rightarrow>
        written (trace w')
          = [(''projects/bar/project.json'',
              ''{'' @ [CHR 0x0A]
                @ ''  '' @ [CHR 0x22] @ ''github_repo'' @ [CHR 0x22] @ '': ''
                    @ [CHR 0x22] @ ''https://gitlab.com/acme/bar'' @ [CHR 0x22] @ '',''
                    @ [CHR 0x0A]
                @ ''  '' @ [CHR 0x22] @ ''stars'' @ [CHR 0x22] @ '': 0'' @ [CHR 0x0A]
                @ ''}'' @ [CHR 0x0A])])"
  by code_simp

text \<open>
  C1 fails on the following input. For a batch whose only descriptor has a malformed
  URL, the early return of lines 34-36 makes the client answer with the empty array:
  the descriptor has no position in the result, where the specification promises the
  value 0 at its position.
\<close>

theorem all_malformed_batch_returns_empty:
  "fst (fetchStarCounts [\<lparr>slug = ''bar'', url = JStr ''https://gitlab.com/acme/bar''\<rparr>] w)
     = Inr []"
  by (simp add: fetchStarCounts_def query_of_def url_parts_def HOST_def filter_Boolean_def)

text \<open>
  C2 fails on the following inputs, by the same early return. The fetched count of
  the descriptor is \<^verbatim>\<open>undefined\<close>, not 0: with a stored count of 10 the file
  is rewritten without any \<^verbatim>\<open>stars\<close> member, and with no stored count the file
  is not rewritten at all, where the specification promises a file with
  \<^verbatim>\<open>stars\<close> 0 in both cases.
\<close>

theorem all_malformed_batch_drops_stars:
  "(case process_batch 0
           [\<lparr>folder = ''bar'', path = json_path ''bar'',
             data = JObj [(''github_repo'', JStr ''https://gitlab.com/acme/bar''),
                          (''stars'', JNum 10)]\<rparr>]
           0 world0 of
      Inl x \<Rightarrow> False
    | Inr (n, w') \<Rightarrow>
        written (trace w')
          = [(''projects/bar/project.json'',
              ''{'' @ [CHR 0x0A]
                @ ''  '' @ [CHR 0x22] @ ''github_repo'' @ [CHR 0x22] @ '': ''
                    @ [CHR 0x22] @ ''https://gitlab.com/acme/bar'' @ [CHR 0x22] @ [CHR 0x0A]
                @ ''}'' @ [CHR 0x0A])])
   \<and> (case process_batch 0
           [\<lparr>folder = ''bar'', path = json_path ''bar'',
             data = JObj [(''github_repo'', JStr ''https://gitlab.com/acme/bar'')]\<rparr>]
           0 world0 of
      Inl x \<Rightarrow> False
    | Inr (n, w') \<Rightarrow> written (trace w') = [])"
  by code_simp

end
